theory Spec2Isabelle
  imports Main "HOL-Library.Sublist"
begin

section \<open>Strings as Go sees them\<close>

text \<open>
  A Go \<^verbatim>\<open>string\<close> is a sequence of bytes, here a \<^typ>\<open>string\<close> (a list of
  \<^typ>\<open>char\<close>). The characters \<^verbatim>\<open>dotenv.go\<close> singles out that are awkward inside a
  literal get a name.
\<close>

abbreviation dq :: char where "dq \<equiv> CHR 0x22"
abbreviation sq :: char where "sq \<equiv> CHR 0x27"
abbreviation bs :: char where "bs \<equiv> CHR 0x5C"
abbreviation nl :: char where "nl \<equiv> CHR 0x0A"
abbreviation tab :: char where "tab \<equiv> CHR 0x09"

subsection \<open>The functions of package \<^verbatim>\<open>strings\<close> that \<^verbatim>\<open>dotenv.go\<close> calls\<close>

text \<open>
  Every separator \<^verbatim>\<open>dotenv.go\<close> passes to \<^verbatim>\<open>Contains\<close>, \<^verbatim>\<open>Count\<close>, \<^verbatim>\<open>Split\<close>,
  \<^verbatim>\<open>SplitN\<close> and \<^verbatim>\<open>Join\<close> is a string of one byte, so the separator is a \<^typ>\<open>char\<close>
  here. Every cutset passed to \<^verbatim>\<open>Trim\<close> is ASCII, so trimming works byte by byte.
\<close>

definition Contains :: "string \<Rightarrow> char \<Rightarrow> bool" where
  "Contains s c = (c \<in> set s)"

definition Count :: "string \<Rightarrow> char \<Rightarrow> nat" where
  "Count s c = length (filter (\<lambda>x. x = c) s)"

text \<open>\<^verbatim>\<open>strings.Split(s, sep)\<close>: the pieces of \<open>s\<close> between the separators, one more
  than there are separators.\<close>

fun Split :: "string \<Rightarrow> char \<Rightarrow> string list" where
  "Split [] c = [[]]"
| "Split (x # xs) c =
     (if x = c then [] # Split xs c
      else (case Split xs c of [] \<Rightarrow> [[x]] | seg # segs \<Rightarrow> (x # seg) # segs))"

text \<open>\<^verbatim>\<open>strings.Join(elems, sep)\<close>.\<close>

fun Join :: "string list \<Rightarrow> char \<Rightarrow> string" where
  "Join [] c = []"
| "Join [s] c = s"
| "Join (s # t # ss) c = s @ c # Join (t # ss) c"

text \<open>\<^verbatim>\<open>strings.SplitN(s, sep, n)\<close> for \<open>n \<ge> 0\<close>: at most \<open>n\<close> pieces, the last one the
  unsplit rest.\<close>

fun SplitN :: "string \<Rightarrow> char \<Rightarrow> nat \<Rightarrow> string list" where
  "SplitN s c 0 = []"
| "SplitN s c (Suc 0) = [s]"
| "SplitN s c (Suc (Suc n)) =
     (if c \<in> set s
      then takeWhile (\<lambda>x. x \<noteq> c) s # SplitN (tl (dropWhile (\<lambda>x. x \<noteq> c) s)) c (Suc n)
      else [s])"

definition HasPrefix :: "string \<Rightarrow> string \<Rightarrow> bool" where
  "HasPrefix s p = prefix p s"

definition TrimPrefix :: "string \<Rightarrow> string \<Rightarrow> string" where
  "TrimPrefix s p = (if HasPrefix s p then drop (length p) s else s)"

text \<open>\<^verbatim>\<open>strings.Trim(s, cutset)\<close> removes every leading and every trailing character that
  is in the cutset.\<close>

definition Trim :: "string \<Rightarrow> string \<Rightarrow> string" where
  "Trim s cutset =
     rev (dropWhile (\<lambda>c. c \<in> set cutset) (rev (dropWhile (\<lambda>c. c \<in> set cutset) s)))"

text \<open>\<^verbatim>\<open>strings.Replace(s, old, new, -1)\<close> for a non-empty \<open>old\<close>: every occurrence,
  found from left to right without overlap, is replaced.\<close>

function Replace :: "string \<Rightarrow> string \<Rightarrow> string \<Rightarrow> string" where
  "Replace [] old new = []"
| "Replace (x # xs) old new =
     (if old \<noteq> [] \<and> prefix old (x # xs)
      then new @ Replace (drop (length old) (x # xs)) old new
      else x # Replace xs old new)"
  by pat_completeness auto
termination
  by (relation "measure (\<lambda>(s, old, new). length s)") auto

section \<open>Errors, dynamic values and outcomes\<close>

text \<open>
  An \<^verbatim>\<open>error\<close> of the program is either made by \<^verbatim>\<open>errors.New\<close> with a message, or
  comes from \<^verbatim>\<open>strconv\<close> (a \<^verbatim>\<open>*NumError\<close>: function name and input), or is whatever
  the generator of the source returned.
\<close>

datatype error =
    ErrorsNew string
  | NumError string string
  | SourceError string

text \<open>
  The store is a \<^verbatim>\<open>map[string]interface{}\<close>. An \<^verbatim>\<open>interface{}\<close> carries its dynamic
  type; the model has the three the code mentions: \<^verbatim>\<open>nil\<close>, \<^verbatim>\<open>string\<close> and \<^verbatim>\<open>int\<close>.
\<close>

datatype go_value = VNil | VString string | VInt int

fun typeName :: "go_value \<Rightarrow> string" where
  "typeName VNil = ''<nil>''"
| "typeName (VString s) = ''string''"
| "typeName (VInt i) = ''int''"

text \<open>
  A type assertion \<^verbatim>\<open>v.(T)\<close> in its one-result form panics when the dynamic type of
  \<open>v\<close> is not \<open>T\<close>: \<^verbatim>\<open>interface conversion: interface {} is string, not int\<close>. The panic
  records the dynamic and the asserted type.
\<close>

datatype panic = InterfaceConversion string string

fun assertString :: "go_value \<Rightarrow> panic + string" where
  "assertString (VString s) = Inr s"
| "assertString v = Inl (InterfaceConversion (typeName v) ''string'')"

fun assertInt :: "go_value \<Rightarrow> panic + int" where
  "assertInt (VInt i) = Inr i"
| "assertInt v = Inl (InterfaceConversion (typeName v) ''int'')"

text \<open>
  An accessor either returns its pair of a result and an error (\<^verbatim>\<open>nil\<close> is \<open>None\<close>),
  or panics, which ends the process unless a caller recovers.
\<close>

datatype 'a outcome = Return 'a "error option" | Panic panic

section \<open>The standard library's parsers\<close>

text \<open>
  \<^verbatim>\<open>strconv\<close> belongs to Go's standard library, not to this repository. Its two parsers
  with a simple grammar are written out from their documented behaviour.
  \<^verbatim>\<open>strconv.ParseBool\<close> accepts exactly twelve spellings.
\<close>

definition ParseBool :: "string \<Rightarrow> error + bool" where
  "ParseBool str =
     (if str \<in> set [''1'', ''t'', ''T'', ''true'', ''TRUE'', ''True''] then Inr True
      else if str \<in> set [''0'', ''f'', ''F'', ''false'', ''FALSE'', ''False''] then Inr False
      else Inl (NumError ''ParseBool'' str))"

text \<open>
  \<^verbatim>\<open>strconv.ParseInt(s, 10, 64)\<close>: an optional sign, then one or more decimal digits, and
  the number has to fit 64 bits; anything else is an error.
\<close>

definition isDigit :: "char \<Rightarrow> bool" where
  "isDigit c = (c \<in> set ''0123456789'')"

definition digitsValue :: "string \<Rightarrow> int" where
  "digitsValue s = foldl (\<lambda>n c. 10 * n + (of_char c - 48)) 0 s"

definition ParseInt :: "string \<Rightarrow> error + int" where
  "ParseInt s =
     (if s = [] then Inl (NumError ''ParseInt'' s)
      else
        let neg = (hd s = CHR ''-'');
            ds = (if hd s = CHR ''+'' \<or> hd s = CHR ''-'' then tl s else s)
        in if ds = [] \<or> \<not> list_all isDigit ds then Inl (NumError ''ParseInt'' s)
           else
             let un = digitsValue ds
             in if \<not> neg \<and> un \<ge> 2 ^ 63 then Inl (NumError ''ParseInt'' s)
                else if neg \<and> un > 2 ^ 63 then Inl (NumError ''ParseInt'' s)
                else Inr (if neg then - un else un))"

section \<open>Parsing one line: \<^verbatim>\<open>parseLine\<close>\<close>

text \<open>
  Lines 71 to 91, the loop over the segments between hashes. Its state is the flag
  \<^verbatim>\<open>quotesAreOpen\<close> and the slice \<^verbatim>\<open>segmentsToKeep\<close>; one iteration is \<open>segmentStep\<close>.
\<close>

fun segmentStep :: "bool \<times> string list \<Rightarrow> string \<Rightarrow> bool \<times> string list" where
  "segmentStep (quotesAreOpen, segmentsToKeep) segment =
     (let (quotesAreOpen1, segmentsToKeep1) =
            (if Count segment dq = 1 \<or> Count segment sq = 1
             then (if quotesAreOpen then (False, segmentsToKeep @ [segment])
                   else (True, segmentsToKeep))
             else (quotesAreOpen, segmentsToKeep))
      in if length segmentsToKeep1 = 0 \<or> quotesAreOpen1
         then (quotesAreOpen1, segmentsToKeep1 @ [segment])
         else (quotesAreOpen1, segmentsToKeep1))"

definition ditchComments :: "string \<Rightarrow> string" where
  "ditchComments line =
     (if Contains line (CHR ''#'')
      then Join (snd (foldl segmentStep (False, []) (Split line (CHR ''#'')))) (CHR ''#'')
      else line)"

text \<open>Lines 94 to 104: split at the first \<^verbatim>\<open>=\<close>, else at the first \<^verbatim>\<open>:\<close>.\<close>

definition splitKeyValue :: "string \<Rightarrow> error + string list" where
  "splitKeyValue line =
     (let splitString = SplitN line (CHR ''='') 2;
          splitString = (if length splitString \<noteq> 2 then SplitN line (CHR '':'') 2
                         else splitString)
      in if length splitString \<noteq> 2
         then Inl (ErrorsNew (''Can'' @ [sq] @ ''t separate key from value''))
         else Inr splitString)"

text \<open>Lines 107 to 111: the key.\<close>

definition parseKey :: "string \<Rightarrow> string" where
  "parseKey key0 =
     (let key = (if HasPrefix key0 ''export'' then TrimPrefix key0 ''export'' else key0)
      in Trim key '' '')"

text \<open>Lines 114 to 127: the value.\<close>

definition parseValue :: "string \<Rightarrow> string" where
  "parseValue value0 =
     (let val = Trim value0 '' ''
      in if Count val dq = 2 \<or> Count val sq = 2
         then Replace (Replace (Trim val [dq, sq]) [bs, dq] [dq]) [bs, CHR ''n''] [nl]
         else val)"

definition parseLine :: "string \<Rightarrow> error + string \<times> string" where
  "parseLine line =
     (if length line = 0 then Inl (ErrorsNew ''zero length string'')
      else
        (case splitKeyValue (ditchComments line) of
           Inl err \<Rightarrow> Inl err
         | Inr splitString \<Rightarrow> Inr (parseKey (splitString ! 0), parseValue (splitString ! 1))))"

definition isIgnoredLine :: "string \<Rightarrow> bool" where
  "isIgnoredLine line =
     (let trimmedLine = Trim line [CHR '' '', nl, tab]
      in length trimmedLine = 0 \<or> HasPrefix trimmedLine ''#'')"

section \<open>The loader\<close>

text \<open>
  The generator \<^verbatim>\<open>gen\<close> is a Go closure: what it returns depends on the world at the
  moment of the call (for \<^verbatim>\<open>NewDotEnvFromFile\<close>, on the file system), so it is a function
  of a world \<open>'w\<close>. A reader is the finite list of lines \<^verbatim>\<open>bufio.Scanner\<close> hands out
  before \<^verbatim>\<open>Scan\<close> reports \<^verbatim>\<open>false\<close>; \<^verbatim>\<open>Setup\<close> never looks at \<^verbatim>\<open>scanner.Err()\<close>.
  A \<^verbatim>\<open>nil\<close> map reads like an empty one.
\<close>

type_synonym Reader = "string list"

text \<open>The field \<^verbatim>\<open>values\<close> is \<open>values_map\<close> here, and the methods of \<^verbatim>\<open>*DotEnv\<close>
  (\<^verbatim>\<open>Setup\<close>, \<^verbatim>\<open>value\<close>, \<^verbatim>\<open>Int\<close>, \<^verbatim>\<open>Bool\<close>, \<^verbatim>\<open>String\<close>) carry the receiver's type in
  their names.\<close>

record 'w DotEnv =
  values_map :: "string \<rightharpoonup> go_value"
  gen :: "'w \<Rightarrow> error + Reader"

definition NewDotEnv :: "('w \<Rightarrow> error + Reader) \<Rightarrow> 'w DotEnv" where
  "NewDotEnv g = \<lparr>values_map = Map.empty, gen = g\<rparr>"

text \<open>For \<^verbatim>\<open>NewDotEnvFromFile\<close> the world is the file system: the lines of each file
  that can be opened.\<close>

definition NewDotEnvFromFile :: "string \<Rightarrow> (string \<rightharpoonup> Reader) DotEnv" where
  "NewDotEnvFromFile path =
     NewDotEnv (\<lambda>fs. case fs path of
                        None \<Rightarrow> Inl (SourceError (''open '' @ path))
                      | Some r \<Rightarrow> Inr r)"

text \<open>Lines 51 to 59 of \<^verbatim>\<open>Setup\<close>: the loop that fills the map.\<close>

definition storeLine :: "(string \<rightharpoonup> go_value) \<Rightarrow> string \<Rightarrow> (string \<rightharpoonup> go_value)" where
  "storeLine vals fullLine =
     (if \<not> isIgnoredLine fullLine
      then (case parseLine fullLine of
              Inr (key, val) \<Rightarrow> vals(key \<mapsto> VString val)
            | Inl err \<Rightarrow> vals)
      else vals)"

definition storeLines :: "(string \<rightharpoonup> go_value) \<Rightarrow> string list \<Rightarrow> (string \<rightharpoonup> go_value)" where
  "storeLines vals lines = foldl storeLine vals lines"

definition DotEnv_Setup :: "'w DotEnv \<Rightarrow> 'w \<Rightarrow> 'w DotEnv \<times> error option" where
  "DotEnv_Setup h w =
     (case gen h w of
        Inl err \<Rightarrow> (h, Some err)
      | Inr r \<Rightarrow> (h\<lparr>values_map := storeLines Map.empty r\<rparr>, None))"

subsection \<open>The accessors\<close>

definition DotEnv_value :: "'w DotEnv \<Rightarrow> string \<Rightarrow> go_value \<times> error option" where
  "DotEnv_value h name =
     (case values_map h name of
        None \<Rightarrow> (VNil, Some (ErrorsNew ''variable does not exist''))
      | Some v \<Rightarrow> (v, None))"

text \<open>
  \<^verbatim>\<open>strconv.ParseFloat\<close> and the conversion \<^verbatim>\<open>int(f)\<close> are floating point and outside
  the repository: \<open>DotEnv_Int\<close> takes them as the parameters \<open>parseFloat\<close> (\<open>None\<close> when
  \<^verbatim>\<open>ParseFloat\<close> returns an error) and \<open>toInt\<close>, and what is proved about it holds for
  every choice of them.
\<close>

definition DotEnv_Int ::
  "(string \<Rightarrow> 'f option) \<Rightarrow> ('f \<Rightarrow> int) \<Rightarrow> 'w DotEnv \<Rightarrow> string \<Rightarrow> int outcome" where
  "DotEnv_Int parseFloat toInt h name =
     (case DotEnv_value h name of
        (v, Some err) \<Rightarrow> Return 0 (Some err)
      | (v, None) \<Rightarrow>
          (case assertString v of
             Inl p \<Rightarrow> Panic p
           | Inr s \<Rightarrow>
               (case parseFloat s of
                  Some f \<Rightarrow> Return (toInt f) None
                | None \<Rightarrow>
                    (case assertString v of
                       Inl p \<Rightarrow> Panic p
                     | Inr s' \<Rightarrow>
                         (case ParseInt s' of
                            Inr i \<Rightarrow> Return i None
                          | Inl err \<Rightarrow>
                              (case assertInt v of
                                 Inl p \<Rightarrow> Panic p
                               | Inr n \<Rightarrow>
                                   Return n (Some (ErrorsNew (typeName v @ '' unable'')))))))))"

definition DotEnv_Bool :: "'w DotEnv \<Rightarrow> string \<Rightarrow> bool outcome" where
  "DotEnv_Bool h name =
     (case DotEnv_value h name of
        (v, Some err) \<Rightarrow> Return False (Some err)
      | (v, None) \<Rightarrow>
          (case assertString v of
             Inl p \<Rightarrow> Panic p
           | Inr s \<Rightarrow>
               (case ParseBool s of
                  Inr b \<Rightarrow> Return b None
                | Inl err \<Rightarrow> Return False (Some err))))"

definition DotEnv_String :: "'w DotEnv \<Rightarrow> string \<Rightarrow> string outcome" where
  "DotEnv_String h name =
     (case DotEnv_value h name of
        (v, Some err) \<Rightarrow> Return [] (Some err)
      | (v, None) \<Rightarrow>
          (case assertString v of
             Inl p \<Rightarrow> Panic p
           | Inr s \<Rightarrow> Return s None))"

section \<open>Notions the properties are stated with\<close>

text \<open>
  The invariant of the store: every value in it has the dynamic type \<^verbatim>\<open>string\<close>.
\<close>

definition storesOnlyStrings :: "'w DotEnv \<Rightarrow> bool" where
  "storesOnlyStrings h = (ran (values_map h) \<subseteq> range VString)"

text \<open>
  For comparison with \<open>parseValue\<close>, the value normalization as the specification words
  it: when the trimmed value has exactly two quote characters of one type, exactly one
  leading and one trailing quote character of that type is stripped (a character of the
  other type at an edge stays), and then the two escapes are expanded.
\<close>

definition spec_stripQuotePair :: "char \<Rightarrow> string \<Rightarrow> string" where
  "spec_stripQuotePair q s =
     (let s1 = (if s \<noteq> [] \<and> hd s = q then tl s else s)
      in if s1 \<noteq> [] \<and> last s1 = q then butlast s1 else s1)"

definition spec_parseValue :: "string \<Rightarrow> string" where
  "spec_parseValue value0 =
     (let val = Trim value0 '' ''
      in if Count val dq = 2
         then Replace (Replace (spec_stripQuotePair dq val) [bs, dq] [dq]) [bs, CHR ''n''] [nl]
         else if Count val sq = 2
         then Replace (Replace (spec_stripQuotePair sq val) [bs, dq] [dq]) [bs, CHR ''n''] [nl]
         else val)"

text \<open>
  For comparison with \<open>isIgnoredLine\<close>, the filter as the specification words it: a line
  is ignorable when, trimmed of leading and trailing whitespace, it is empty or begins with
  \<^verbatim>\<open>#\<close>. Whitespace is what the word means for ASCII text: space, tab, newline, vertical
  tab, form feed and carriage return.
\<close>

definition spec_isSpace :: "char \<Rightarrow> bool" where
  "spec_isSpace c = (c \<in> set [CHR '' '', tab, nl, CHR 0x0B, CHR 0x0C, CHR 0x0D])"

definition spec_isIgnoredLine :: "string \<Rightarrow> bool" where
  "spec_isIgnoredLine line =
     (let trimmed = rev (dropWhile spec_isSpace (rev (dropWhile spec_isSpace line)))
      in trimmed = [] \<or> hd trimmed = CHR ''#'')"


section \<open>The loop of \<^verbatim>\<open>Setup\<close>\<close>

lemma storeLines_Nil: "storeLines m [] = m"
  by (simp add: storeLines_def)

lemma storeLines_Cons: "storeLines m (l # ls) = storeLines (storeLine m l) ls"
  by (simp add: storeLines_def)

lemma storeLines_append: "storeLines m (xs @ ys) = storeLines (storeLines m xs) ys"
  by (simp add: storeLines_def)

lemma storeLine_ignored: "isIgnoredLine l \<Longrightarrow> storeLine m l = m"
  by (simp add: storeLine_def)

lemma storeLine_error: "parseLine l = Inl e \<Longrightarrow> storeLine m l = m"
  by (simp add: storeLine_def)

lemma storeLine_parsed:
  "\<not> isIgnoredLine l \<Longrightarrow> parseLine l = Inr (k, v) \<Longrightarrow> storeLine m l = m(k \<mapsto> VString v)"
  by (simp add: storeLine_def)

lemma Setup_success:
  "gen h w = Inr r \<Longrightarrow> DotEnv_Setup h w = (h\<lparr>values_map := storeLines Map.empty r\<rparr>, None)"
  by (simp add: DotEnv_Setup_def)

lemma Setup_failure: "gen h w = Inl e \<Longrightarrow> DotEnv_Setup h w = (h, Some e)"
  by (simp add: DotEnv_Setup_def)

section \<open>Escapes in quoted values\<close>

text \<open>
  Claim C3. The line \<^verbatim>\<open>KEY="line1\nline2"\<close> (backslash, n) stores a value with a newline
  character between \<^verbatim>\<open>line1\<close> and \<^verbatim>\<open>line2\<close>. The line \<^verbatim>\<open>KEY="a\"b"\<close> does not store
  \<^verbatim>\<open>a"b\<close>: its value has three double-quote characters, not two, so neither the quotes
  are pulled off nor the escape expanded, and the six characters \<^verbatim>\<open>"a\"b"\<close> are stored
  as they stand.
\<close>

theorem escaped_quote_in_double_quotes_kept_verbatim:
  "parseLine (''KEY='' @ [dq] @ ''line1'' @ [bs] @ ''nline2'' @ [dq])
     = Inr (''KEY'', ''line1'' @ [nl] @ ''line2'')
   \<and> parseLine (''KEY='' @ [dq] @ ''a'' @ [bs, dq] @ ''b'' @ [dq])
     = Inr (''KEY'', [dq] @ ''a'' @ [bs, dq] @ ''b'' @ [dq])
   \<and> values_map (fst (DotEnv_Setup
         (NewDotEnv (\<lambda>w :: unit. Inr [''KEY='' @ [dq] @ ''a'' @ [bs, dq] @ ''b'' @ [dq]])) ()))
         ''KEY''
       = Some (VString ([dq] @ ''a'' @ [bs, dq] @ ''b'' @ [dq]))"
  by code_simp

section \<open>Ignored lines\<close>

lemma Trim_Nil: "Trim [] cs = []"
  by (simp add: Trim_def)

lemma Trim_blank_prefix:
  assumes "set ws \<subseteq> set cs"
  shows "Trim (ws @ rest) cs = Trim rest cs"
proof -
  have "dropWhile (\<lambda>c. c \<in> set cs) (ws @ rest) = dropWhile (\<lambda>c. c \<in> set cs) rest"
    using assms by (intro dropWhile_append2) auto
  then show ?thesis by (simp add: Trim_def)
qed

lemma Trim_keeps_head:
  assumes "x \<notin> set cs"
  shows "Trim (x # r) cs = x # rev (dropWhile (\<lambda>c. c \<in> set cs) (rev r))"
proof -
  have "dropWhile (\<lambda>c. c \<in> set cs) (rev r @ [x]) = dropWhile (\<lambda>c. c \<in> set cs) (rev r) @ [x]"
    using assms by (rule dropWhile_append3)
  then show ?thesis using assms by (simp add: Trim_def)
qed

lemma isIgnoredLine_blank_or_hash:
  assumes "set ws \<subseteq> {CHR '' '', nl, tab}" and "rest = [] \<or> hd rest = CHR ''#''"
  shows "isIgnoredLine (ws @ rest)"
proof -
  have ws: "set ws \<subseteq> set [CHR '' '', nl, tab]" using assms(1) by simp
  have eq: "Trim (ws @ rest) [CHR '' '', nl, tab] = Trim rest [CHR '' '', nl, tab]"
    using ws by (rule Trim_blank_prefix)
  show ?thesis
  proof (cases rest)
    case Nil
    then have "Trim (ws @ rest) [CHR '' '', nl, tab] = []"
      using eq by (simp only: Trim_Nil)
    then show ?thesis
      unfolding isIgnoredLine_def Let_def by simp
  next
    case (Cons x r)
    with assms(2) have x: "x = CHR ''#''" by simp
    have "Trim (CHR ''#'' # r) [CHR '' '', nl, tab]
        = CHR ''#'' # rev (dropWhile (\<lambda>c. c \<in> set [CHR '' '', nl, tab]) (rev r))"
      by (rule Trim_keeps_head) simp
    then have "\<exists>t. Trim (ws @ rest) [CHR '' '', nl, tab] = CHR ''#'' # t"
      using eq Cons x by simp
    then obtain t where "Trim (ws @ rest) [CHR '' '', nl, tab] = CHR ''#'' # t" ..
    then show ?thesis
      unfolding isIgnoredLine_def Let_def HasPrefix_def by simp
  qed
qed

text \<open>
  Claim C5, as amended. A line that consists of spaces, newlines and tabs (the only
  characters \<open>isIgnoredLine\<close> trims) followed by nothing or by text that begins with \<^verbatim>\<open>#\<close>
  stores no key: one step of the loop leaves the store as it is, and \<^verbatim>\<open>Setup\<close> on a source
  with such a line anywhere builds the store that the other lines alone build.
\<close>

theorem ignored_line_stores_no_key:
  assumes "set ws \<subseteq> {CHR '' '', nl, tab}"
    and "rest = [] \<or> hd rest = CHR ''#''"
    and "gen h w = Inr (pre @ (ws @ rest) # post)"
  shows "storeLine m (ws @ rest) = m
    \<and> values_map (fst (DotEnv_Setup h w)) = storeLines Map.empty (pre @ post)"
proof -
  have "isIgnoredLine (ws @ rest)"
    using assms(1,2) by (rule isIgnoredLine_blank_or_hash)
  then have step: "storeLine m' (ws @ rest) = m'" for m'
    by (rule storeLine_ignored)
  have "storeLines Map.empty (pre @ (ws @ rest) # post) = storeLines Map.empty (pre @ post)"
    by (simp add: storeLines_append storeLines_Cons step)
  then show ?thesis
    using step assms(3) by (simp add: Setup_success)
qed

theorem ignored_line_stores_no_key_witness:
  "storeLine [''A'' \<mapsto> VString ''1''] ('' '' @ ''# B=2'') = [''A'' \<mapsto> VString ''1'']
   \<and> values_map (fst (DotEnv_Setup
         (NewDotEnv (\<lambda>w :: unit. Inr ([''A=1''] @ ('' '' @ ''# B=2'') # [''C=3'']))) ()))
       = storeLines Map.empty ([''A=1''] @ [''C=3''])"
  using ignored_line_stores_no_key [of "'' ''" "''# B=2''"
      "NewDotEnv (\<lambda>w :: unit. Inr ([''A=1''] @ ('' '' @ ''# B=2'') # [''C=3'']))" "()"
      "[''A=1'']" "[''C=3'']" "[''A'' \<mapsto> VString ''1'']"]
  by (simp add: NewDotEnv_def)

text \<open>
  The claim as it stands, with whitespace in its usual sense, fails: a carriage return is
  whitespace but is not in the cutset of \<open>isIgnoredLine\<close>. The line made of a carriage
  return and \<^verbatim>\<open># it's x: y\<close> begins with \<^verbatim>\<open>#\<close> once whitespace is trimmed, yet it is not
  ignored, the apostrophe keeps the text after the hash, and a key is stored.
\<close>

theorem carriage_return_before_hash_stores_key:
  "spec_isIgnoredLine ([CHR 0x0D] @ ''# it'' @ [sq] @ ''s x: y'')
   \<and> \<not> isIgnoredLine ([CHR 0x0D] @ ''# it'' @ [sq] @ ''s x: y'')
   \<and> parseLine ([CHR 0x0D] @ ''# it'' @ [sq] @ ''s x: y'')
       = Inr ([CHR 0x0D] @ ''# it'' @ [sq] @ ''s x'', ''y'')
   \<and> values_map (fst (DotEnv_Setup
         (NewDotEnv (\<lambda>w :: unit. Inr [[CHR 0x0D] @ ''# it'' @ [sq] @ ''s x: y''])) ()))
         ([CHR 0x0D] @ ''# it'' @ [sq] @ ''s x'')
       = Some (VString ''y'')"
  by code_simp

section \<open>Duplicate keys\<close>

lemma storeLines_other_keys:
  assumes "\<forall>l \<in> set ls. isIgnoredLine l \<or> (\<forall>v. parseLine l \<noteq> Inr (k, v))"
  shows "storeLines m ls k = m k"
  using assms
proof (induction ls arbitrary: m)
  case Nil
  then show ?case by (simp add: storeLines_Nil)
next
  case (Cons l ls)
  have "storeLine m l k = m k"
  proof (cases "isIgnoredLine l")
    case True
    then show ?thesis by (simp add: storeLine_ignored)
  next
    case False
    with Cons.prems have no: "\<forall>v. parseLine l \<noteq> Inr (k, v)" by simp
    show ?thesis
    proof (cases "parseLine l")
      case (Inl e)
      then show ?thesis by (simp add: storeLine_error)
    next
      case (Inr kv)
      obtain k' v' where kv: "kv = (k', v')" by (cases kv)
      with Inr no have "k' \<noteq> k" by auto
      then show ?thesis using False Inr kv by (simp add: storeLine_parsed)
    qed
  qed
  moreover have "storeLines (storeLine m l) ls k = storeLine m l k"
    using Cons.prems by (intro Cons.IH) simp
  ultimately show ?case by (simp add: storeLines_Cons)
qed

text \<open>
  Claim C7. When the source has several lines that parse to the same key, the store after
  \<^verbatim>\<open>Setup\<close> maps the key to the value of the last of them: if a line that is not ignored
  parses to \<open>(k, v)\<close> and no later line that is not ignored parses to the key \<open>k\<close>, the
  store holds the string \<open>v\<close> for \<open>k\<close>, whatever the earlier lines were. The store is a map,
  so the key has this one value only.
\<close>

theorem last_occurrence_wins:
  assumes "gen h w = Inr (pre @ l # post)"
    and "\<not> isIgnoredLine l" and "parseLine l = Inr (k, v)"
    and "\<forall>l' \<in> set post. isIgnoredLine l' \<or> (\<forall>v'. parseLine l' \<noteq> Inr (k, v'))"
  shows "values_map (fst (DotEnv_Setup h w)) k = Some (VString v)
    \<and> (\<exists>!x. values_map (fst (DotEnv_Setup h w)) k = Some x)"
proof -
  have "storeLines Map.empty (pre @ l # post) k
      = storeLines (storeLine (storeLines Map.empty pre) l) post k"
    by (simp add: storeLines_append storeLines_Cons)
  also have "\<dots> = storeLine (storeLines Map.empty pre) l k"
    using assms(4) by (rule storeLines_other_keys)
  also have "\<dots> = Some (VString v)"
    using assms(2,3) by (simp add: storeLine_parsed)
  finally show ?thesis
    using assms(1) by (simp add: Setup_success)
qed

theorem last_occurrence_wins_witness:
  "values_map (fst (DotEnv_Setup
       (NewDotEnv (\<lambda>w :: unit. Inr ([''A=1'', ''B=x''] @ ''A=2'' # [''# A=3'', ''C=4'']))) ())) ''A''
     = Some (VString ''2'')
   \<and> (\<exists>!x. values_map (fst (DotEnv_Setup
       (NewDotEnv (\<lambda>w :: unit. Inr ([''A=1'', ''B=x''] @ ''A=2'' # [''# A=3'', ''C=4'']))) ())) ''A''
     = Some x)"
proof -
  have 1: "gen (NewDotEnv (\<lambda>w :: unit. Inr ([''A=1'', ''B=x''] @ ''A=2'' # [''# A=3'', ''C=4''])))
      () = Inr ([''A=1'', ''B=x''] @ ''A=2'' # [''# A=3'', ''C=4''])"
    by (simp add: NewDotEnv_def)
  have 2: "\<not> isIgnoredLine ''A=2''" by code_simp
  have 3: "parseLine ''A=2'' = Inr (''A'', ''2'')" by code_simp
  have 4: "isIgnoredLine ''# A=3''" by code_simp
  have 5: "parseLine ''C=4'' = Inr (''C'', ''4'')" by code_simp
  have 6: "\<forall>l' \<in> set [''# A=3'', ''C=4''].
      isIgnoredLine l' \<or> (\<forall>v'. parseLine l' \<noteq> Inr (''A'', v'))"
    using 4 5 by simp
  show ?thesis
    by (rule last_occurrence_wins [OF 1 2 3 6])
qed

section \<open>Lines without a separator\<close>

lemma Split_not_Nil: "Split s c \<noteq> []"
  by (induction s) (auto split: list.splits)

lemma Split_chars: "seg \<in> set (Split s c) \<Longrightarrow> set seg \<subseteq> set s"
proof (induction s arbitrary: seg)
  case Nil
  then show ?case by simp
next
  case (Cons x xs)
  show ?case
  proof (cases "x = c")
    case True
    with Cons.prems have "seg = [] \<or> seg \<in> set (Split xs c)" by simp
    then show ?thesis using Cons.IH by auto
  next
    case False
    obtain y ys where sp: "Split xs c = y # ys"
      using Split_not_Nil [of xs c] by (cases "Split xs c") auto
    with False Cons.prems have "seg = x # y \<or> seg \<in> set ys" by simp
    moreover have "set y \<subseteq> set xs" using Cons.IH [of y] sp by simp
    moreover have "seg \<in> set ys \<Longrightarrow> set seg \<subseteq> set xs" using Cons.IH [of seg] sp by simp
    ultimately show ?thesis by auto
  qed
qed

lemma segmentStep_kept: "set (snd (segmentStep (q, keep) seg)) \<subseteq> insert seg (set keep)"
  by (auto simp: Let_def split: if_splits)

lemma segment_loop_kept:
  "set (snd (foldl segmentStep (q, keep) segs)) \<subseteq> set keep \<union> set segs"
proof (induction segs arbitrary: q keep)
  case Nil
  then show ?case by simp
next
  case (Cons seg segs)
  obtain q' keep' where st: "segmentStep (q, keep) seg = (q', keep')"
    by (cases "segmentStep (q, keep) seg")
  have "set keep' \<subseteq> insert seg (set keep)"
    using segmentStep_kept [of q keep seg] st by simp
  moreover have "set (snd (foldl segmentStep (q', keep') segs)) \<subseteq> set keep' \<union> set segs"
    by (rule Cons.IH)
  ultimately show ?case using st by auto
qed

lemma Join_chars: "set (Join ss c) \<subseteq> insert c (\<Union> (set ` set ss))"
  by (induction ss c rule: Join.induct) auto

lemma ditchComments_chars: "set (ditchComments line) \<subseteq> set line"
proof (cases "Contains line (CHR ''#'')")
  case False
  then show ?thesis by (simp add: ditchComments_def)
next
  case True
  let ?keep = "snd (foldl segmentStep (False, []) (Split line (CHR ''#'')))"
  have "set ?keep \<subseteq> set (Split line (CHR ''#''))"
    using segment_loop_kept [of False "[]" "Split line (CHR ''#'')"] by simp
  then have "\<Union> (set ` set ?keep) \<subseteq> set line"
    using Split_chars by blast
  moreover have "CHR ''#'' \<in> set line" using True by (simp add: Contains_def)
  ultimately have "set (Join ?keep (CHR ''#'')) \<subseteq> set line"
    using Join_chars [of ?keep "CHR ''#''"] by blast
  then show ?thesis using True by (simp add: ditchComments_def)
qed

lemma splitKeyValue_no_separator:
  assumes "CHR ''='' \<notin> set s" and "CHR '':'' \<notin> set s"
  shows "splitKeyValue s = Inl (ErrorsNew (''Can'' @ [sq] @ ''t separate key from value''))"
proof -
  have "SplitN s (CHR ''='') 2 = [s]" "SplitN s (CHR '':'') 2 = [s]"
    using assms by (simp_all add: numeral_2_eq_2)
  then show ?thesis by (simp add: splitKeyValue_def)
qed

lemma parseLine_no_separator:
  assumes "CHR ''='' \<notin> set l" and "CHR '':'' \<notin> set l"
  shows "\<exists>e. parseLine l = Inl e"
proof (cases "l = []")
  case True
  then show ?thesis by (simp add: parseLine_def)
next
  case False
  have "CHR ''='' \<notin> set (ditchComments l)" "CHR '':'' \<notin> set (ditchComments l)"
    using assms ditchComments_chars [of l] by auto
  then have "splitKeyValue (ditchComments l)
      = Inl (ErrorsNew (''Can'' @ [sq] @ ''t separate key from value''))"
    by (rule splitKeyValue_no_separator)
  then show ?thesis using False by (simp add: parseLine_def)
qed

text \<open>
  Claim C8. \<^verbatim>\<open>Setup\<close> returns exactly the error of the generator, and \<^verbatim>\<open>nil\<close> when the
  generator returns a reader. A line of the source with neither \<^verbatim>\<open>=\<close> nor \<^verbatim>\<open>:\<close> makes
  \<open>parseLine\<close> fail, yet \<^verbatim>\<open>Setup\<close> succeeds, and the store is the one the other lines alone
  build.
\<close>

theorem Setup_fails_only_with_the_source:
  "snd (DotEnv_Setup h w) = (case gen h w of Inl err \<Rightarrow> Some err | Inr r \<Rightarrow> None)
   \<and> (\<forall>pre l post.
        gen h w = Inr (pre @ l # post) \<and> CHR ''='' \<notin> set l \<and> CHR '':'' \<notin> set l \<longrightarrow>
          (\<exists>e. parseLine l = Inl e)
          \<and> snd (DotEnv_Setup h w) = None
          \<and> values_map (fst (DotEnv_Setup h w)) = storeLines Map.empty (pre @ post))"
proof (intro conjI allI impI)
  show "snd (DotEnv_Setup h w) = (case gen h w of Inl err \<Rightarrow> Some err | Inr r \<Rightarrow> None)"
    by (simp add: DotEnv_Setup_def split: sum.splits)
next
  fix pre l post
  assume a: "gen h w = Inr (pre @ l # post) \<and> CHR ''='' \<notin> set l \<and> CHR '':'' \<notin> set l"
  then show "\<exists>e. parseLine l = Inl e"
    by (simp add: parseLine_no_separator)
  then obtain e where "parseLine l = Inl e" ..
  then have step: "storeLine m l = m" for m
    by (rule storeLine_error)
  show "snd (DotEnv_Setup h w) = None"
    using a by (simp add: Setup_success)
  show "values_map (fst (DotEnv_Setup h w)) = storeLines Map.empty (pre @ post)"
    using a by (simp add: Setup_success storeLines_append storeLines_Cons step)
qed

theorem Setup_fails_only_with_the_source_witness:
  "(\<exists>e. parseLine ''no separator here'' = Inl e)
   \<and> snd (DotEnv_Setup
         (NewDotEnv (\<lambda>w :: unit. Inr ([''A=1''] @ ''no separator here'' # [''B=2'']))) ()) = None
   \<and> values_map (fst (DotEnv_Setup
         (NewDotEnv (\<lambda>w :: unit. Inr ([''A=1''] @ ''no separator here'' # [''B=2'']))) ()))
       = storeLines Map.empty ([''A=1''] @ [''B=2''])"
proof -
  let ?h = "NewDotEnv (\<lambda>w :: unit. Inr ([''A=1''] @ ''no separator here'' # [''B=2'']))"
  have "gen ?h () = Inr ([''A=1''] @ ''no separator here'' # [''B=2''])
      \<and> CHR ''='' \<notin> set ''no separator here'' \<and> CHR '':'' \<notin> set ''no separator here''"
    by (simp add: NewDotEnv_def)
  then show ?thesis
    using Setup_fails_only_with_the_source [of ?h "()"] by blast
qed

section \<open>The accessors\<close>

lemma value_missing:
  "values_map h name = None \<Longrightarrow>
     DotEnv_value h name = (VNil, Some (ErrorsNew ''variable does not exist''))"
  by (simp add: DotEnv_value_def)

lemma value_present: "values_map h name = Some v \<Longrightarrow> DotEnv_value h name = (v, None)"
  by (simp add: DotEnv_value_def)

text \<open>
  Claim C9, as amended. For a key that is not in the store, \<^verbatim>\<open>String\<close>, \<^verbatim>\<open>Int\<close> and
  \<^verbatim>\<open>Bool\<close> return the error \<^verbatim>\<open>variable does not exist\<close> with the zero value of their type.
  A \<^verbatim>\<open>Setup\<close> whose generator fails returns that error and leaves the loader as it was: on
  a loader made by \<^verbatim>\<open>NewDotEnv\<close> no key is in the store afterwards, so every accessor
  returns that error for every key.
\<close>

theorem missing_key_error_and_zero_value:
  "(values_map (h :: 'w DotEnv) name = None \<longrightarrow>
      DotEnv_String h name = Return [] (Some (ErrorsNew ''variable does not exist''))
      \<and> DotEnv_Int parseFloat toInt h name = Return 0 (Some (ErrorsNew ''variable does not exist''))
      \<and> DotEnv_Bool h name = Return False (Some (ErrorsNew ''variable does not exist'')))
   \<and> (gen h w = Inl e \<longrightarrow> DotEnv_Setup h w = (h, Some e))
   \<and> ((g :: 'v \<Rightarrow> error + Reader) w' = Inl e \<longrightarrow>
      values_map (fst (DotEnv_Setup (NewDotEnv g) w')) name = None
      \<and> DotEnv_String (fst (DotEnv_Setup (NewDotEnv g) w')) name
          = Return [] (Some (ErrorsNew ''variable does not exist''))
      \<and> DotEnv_Int parseFloat toInt (fst (DotEnv_Setup (NewDotEnv g) w')) name
          = Return 0 (Some (ErrorsNew ''variable does not exist''))
      \<and> DotEnv_Bool (fst (DotEnv_Setup (NewDotEnv g) w')) name
          = Return False (Some (ErrorsNew ''variable does not exist'')))"
proof -
  have acc: "DotEnv_String h' name = Return [] (Some (ErrorsNew ''variable does not exist''))
      \<and> DotEnv_Int parseFloat toInt h' name
          = Return 0 (Some (ErrorsNew ''variable does not exist''))
      \<and> DotEnv_Bool h' name = Return False (Some (ErrorsNew ''variable does not exist''))"
    if "values_map h' name = None" for h' :: "'w DotEnv"
    using that
    by (simp add: DotEnv_String_def DotEnv_Int_def DotEnv_Bool_def value_missing)
  have acc': "DotEnv_String h' name = Return [] (Some (ErrorsNew ''variable does not exist''))
      \<and> DotEnv_Int parseFloat toInt h' name
          = Return 0 (Some (ErrorsNew ''variable does not exist''))
      \<and> DotEnv_Bool h' name = Return False (Some (ErrorsNew ''variable does not exist''))"
    if "values_map h' name = None" for h' :: "'v DotEnv"
    using that
    by (simp add: DotEnv_String_def DotEnv_Int_def DotEnv_Bool_def value_missing)
  have fresh: "values_map (fst (DotEnv_Setup (NewDotEnv g) w')) name = None" if "g w' = Inl e"
    using that by (simp add: DotEnv_Setup_def NewDotEnv_def)
  show ?thesis
    using acc [of h] acc' [OF fresh] fresh by (simp add: Setup_failure)
qed

theorem missing_key_error_and_zero_value_witness:
  "DotEnv_String (NewDotEnv (\<lambda>w :: unit. Inl (SourceError ''gone''))) ''A''
     = Return [] (Some (ErrorsNew ''variable does not exist''))
   \<and> DotEnv_Int (\<lambda>s. None :: int option) id (NewDotEnv (\<lambda>w :: unit. Inl (SourceError ''gone''))) ''A''
     = Return 0 (Some (ErrorsNew ''variable does not exist''))
   \<and> DotEnv_Bool (NewDotEnv (\<lambda>w :: unit. Inl (SourceError ''gone''))) ''A''
     = Return False (Some (ErrorsNew ''variable does not exist''))
   \<and> DotEnv_Setup (NewDotEnv (\<lambda>w :: unit. Inl (SourceError ''gone''))) ()
     = (NewDotEnv (\<lambda>w :: unit. Inl (SourceError ''gone'')), Some (SourceError ''gone''))
   \<and> DotEnv_String (fst (DotEnv_Setup (NewDotEnv (\<lambda>w :: unit. Inl (SourceError ''gone''))) ())) ''A''
     = Return [] (Some (ErrorsNew ''variable does not exist''))"
proof -
  let ?g = "\<lambda>w :: unit. Inl (SourceError ''gone'') :: error + Reader"
  have 1: "values_map (NewDotEnv ?g) ''A'' = None"
    by (simp add: NewDotEnv_def)
  have 2: "gen (NewDotEnv ?g) () = Inl (SourceError ''gone'')"
    by (simp add: NewDotEnv_def)
  have 3: "?g () = Inl (SourceError ''gone'')"
    by simp
  show ?thesis
    using missing_key_error_and_zero_value
      [of "NewDotEnv ?g" "''A''" "\<lambda>s. None :: int option" id "()" "SourceError ''gone''" ?g "()"]
      1 2 3
    by blast
qed

text \<open>
  The claim as it stands fails on a loader that was set up before: when a first \<^verbatim>\<open>Setup\<close>
  succeeded and a second one fails because the generator now returns an error, the store
  of the first is still there and the accessors still answer from it.
\<close>

theorem failed_Setup_keeps_earlier_store:
  "snd (DotEnv_Setup
      (fst (DotEnv_Setup
         (NewDotEnv (\<lambda>w :: bool. if w then Inr [''A=1''] else Inl (SourceError ''gone''))) True))
      False) = Some (SourceError ''gone'')
   \<and> DotEnv_String (fst (DotEnv_Setup
      (fst (DotEnv_Setup
         (NewDotEnv (\<lambda>w :: bool. if w then Inr [''A=1''] else Inl (SourceError ''gone''))) True))
      False)) ''A'' = Return ''1'' None"
  by code_simp

section \<open>Only strings in the store\<close>

lemma storeLine_ran: "ran (storeLine m l) \<subseteq> ran m \<union> range VString"
proof -
  have "ran (m(k \<mapsto> VString v)) \<subseteq> ran m \<union> range VString" for k v
    by (auto simp: ran_def split: if_splits)
  then show ?thesis
    by (auto simp: storeLine_def split: sum.splits prod.splits)
qed

lemma storeLines_ran: "ran (storeLines m ls) \<subseteq> ran m \<union> range VString"
proof (induction ls arbitrary: m)
  case Nil
  then show ?case by (simp add: storeLines_Nil)
next
  case (Cons l ls)
  have "ran (storeLines (storeLine m l) ls) \<subseteq> ran (storeLine m l) \<union> range VString"
    by (rule Cons.IH)
  then show ?case
    using storeLine_ran [of m l] by (auto simp: storeLines_Cons)
qed

lemma Setup_storesOnlyStrings:
  assumes "storesOnlyStrings h"
  shows "storesOnlyStrings (fst (DotEnv_Setup h w))"
proof (cases "gen h w")
  case (Inl e)
  then show ?thesis using assms by (simp add: Setup_failure)
next
  case (Inr r)
  have "ran (storeLines Map.empty r) \<subseteq> range VString"
    using storeLines_ran [of Map.empty r] by simp
  then show ?thesis using Inr by (simp add: Setup_success storesOnlyStrings_def)
qed

lemma stored_value_is_string:
  assumes "storesOnlyStrings h" and "values_map h name = Some v"
  shows "\<exists>s. v = VString s"
proof -
  have "v \<in> ran (values_map h)" using assms(2) by (auto simp: ran_def)
  then show ?thesis using assms(1) by (auto simp: storesOnlyStrings_def)
qed

text \<open>
  Claim C10. A loader made by \<^verbatim>\<open>NewDotEnv\<close> has only strings in its store (it has nothing
  in it), \<^verbatim>\<open>Setup\<close> keeps it so whether it succeeds or fails, every value the loop of
  \<^verbatim>\<open>Setup\<close> puts into a map is a string, and the accessors change nothing (they return an
  outcome only). So for a key that is present the assertion \<^verbatim>\<open>v.(string)\<close> succeeds:
  \<^verbatim>\<open>String\<close> returns the stored string and no error, \<^verbatim>\<open>Bool\<close> returns without a panic,
  and \<^verbatim>\<open>Int\<close> never panics with a failed conversion to \<^verbatim>\<open>string\<close>.
\<close>

theorem store_holds_only_strings:
  "storesOnlyStrings (NewDotEnv g)
   \<and> ran (storeLines m ls) \<subseteq> ran m \<union> range VString
   \<and> (storesOnlyStrings h \<longrightarrow> storesOnlyStrings (fst (DotEnv_Setup h w)))
   \<and> (storesOnlyStrings h \<and> values_map h name = Some v \<longrightarrow>
        (\<exists>s. v = VString s \<and> assertString v = Inr s
           \<and> DotEnv_String h name = Return s None
           \<and> (\<exists>b e. DotEnv_Bool h name = Return b e)
           \<and> (\<forall>t. DotEnv_Int parseFloat toInt h name \<noteq> Panic (InterfaceConversion t ''string''))))"
proof (intro conjI impI)
  show "storesOnlyStrings (NewDotEnv g)"
    by (simp add: storesOnlyStrings_def NewDotEnv_def)
  show "ran (storeLines m ls) \<subseteq> ran m \<union> range VString"
    by (rule storeLines_ran)
  show "storesOnlyStrings (fst (DotEnv_Setup h w))" if "storesOnlyStrings h"
    using that by (rule Setup_storesOnlyStrings)
next
  assume a: "storesOnlyStrings h \<and> values_map h name = Some v"
  then obtain s where s: "v = VString s"
    using stored_value_is_string by blast
  have val: "DotEnv_value h name = (VString s, None)"
    using a s by (simp add: value_present)
  have 1: "DotEnv_String h name = Return s None"
    by (simp add: DotEnv_String_def val)
  have 2: "\<exists>b e. DotEnv_Bool h name = Return b e"
    by (cases "ParseBool s") (auto simp: DotEnv_Bool_def val)
  have 3: "DotEnv_Int parseFloat toInt h name \<noteq> Panic (InterfaceConversion t ''string'')" for t
    by (cases "parseFloat s"; cases "ParseInt s") (simp_all add: DotEnv_Int_def val)
  show "\<exists>s. v = VString s \<and> assertString v = Inr s
           \<and> DotEnv_String h name = Return s None
           \<and> (\<exists>b e. DotEnv_Bool h name = Return b e)
           \<and> (\<forall>t. DotEnv_Int parseFloat toInt h name \<noteq> Panic (InterfaceConversion t ''string''))"
    using s 1 2 3 by simp
qed

theorem store_holds_only_strings_witness:
  "storesOnlyStrings (fst (DotEnv_Setup (NewDotEnv (\<lambda>w :: unit. Inr [''A=1''])) ()))
   \<and> (\<exists>s. VString ''1'' = VString s \<and> assertString (VString ''1'') = Inr s
        \<and> DotEnv_String (fst (DotEnv_Setup (NewDotEnv (\<lambda>w :: unit. Inr [''A=1''])) ())) ''A''
            = Return s None
        \<and> (\<exists>b e. DotEnv_Bool (fst (DotEnv_Setup (NewDotEnv (\<lambda>w :: unit. Inr [''A=1''])) ())) ''A''
            = Return b e)
        \<and> (\<forall>t. DotEnv_Int (\<lambda>s. None :: int option) id
              (fst (DotEnv_Setup (NewDotEnv (\<lambda>w :: unit. Inr [''A=1''])) ())) ''A''
            \<noteq> Panic (InterfaceConversion t ''string'')))"
proof -
  let ?g = "\<lambda>w :: unit. Inr [''A=1''] :: error + Reader"
  let ?h = "fst (DotEnv_Setup (NewDotEnv ?g) ())"
  have 1: "storesOnlyStrings ?h"
    using store_holds_only_strings
      [of ?g Map.empty "[]" "NewDotEnv ?g" "()" "''A''" VNil "\<lambda>s. None :: int option" id]
    by blast
  have 2: "values_map ?h ''A'' = Some (VString ''1'')"
    by code_simp
  show ?thesis
    using 1 2 store_holds_only_strings
      [of ?g Map.empty "[]" ?h "()" "''A''" "VString ''1''" "\<lambda>s. None :: int option" id]
    by blast
qed

section \<open>\<^verbatim>\<open>Int\<close> on a value that is no number\<close>

text \<open>
  Claim C1. When the stored string fails \<^verbatim>\<open>ParseFloat\<close> and \<^verbatim>\<open>ParseInt\<close>, \<^verbatim>\<open>Int\<close> gets to
  \<^verbatim>\<open>return v.(int), errors.New(...)\<close>. The stored value is a string, so the assertion
  \<^verbatim>\<open>v.(int)\<close> panics before the error is returned: \<^verbatim>\<open>Int\<close> does not return at all.
\<close>

theorem Int_panics_when_both_parses_fail:
  assumes "values_map h name = Some (VString s)"
    and "parseFloat s = None"
    and "ParseInt s = Inl e"
  shows "DotEnv_Int parseFloat toInt h name = Panic (InterfaceConversion ''string'' ''int'')"
  using assms by (simp add: DotEnv_Int_def value_present)

theorem Int_panics_when_both_parses_fail_witness:
  "DotEnv_Int (\<lambda>s. if s = ''1.0'' then Some (1 :: int) else None) id
     (fst (DotEnv_Setup (NewDotEnv (\<lambda>w :: unit. Inr [''K=abc''])) ())) ''K''
   = Panic (InterfaceConversion ''string'' ''int'')"
proof -
  have 1: "values_map (fst (DotEnv_Setup (NewDotEnv (\<lambda>w :: unit. Inr [''K=abc''])) ())) ''K''
      = Some (VString ''abc'')"
    by code_simp
  have 2: "(\<lambda>s. if s = ''1.0'' then Some (1 :: int) else None) ''abc'' = None"
    by simp
  have 3: "ParseInt ''abc'' = Inl (NumError ''ParseInt'' ''abc'')"
    by code_simp
  show ?thesis
    using 1 2 3 Int_panics_when_both_parses_fail
      [of "fst (DotEnv_Setup (NewDotEnv (\<lambda>w :: unit. Inr [''K=abc''])) ())" "''K''" "''abc''"
        "\<lambda>s. if s = ''1.0'' then Some (1 :: int) else None" "NumError ''ParseInt'' ''abc''" id]
    by blast
qed

section \<open>Quoted values\<close>

lemma Trim_decomposition:
  "\<exists>lead trail. s = lead @ Trim s cs @ trail
     \<and> set lead \<subseteq> set cs \<and> set trail \<subseteq> set cs
     \<and> (Trim s cs \<noteq> [] \<longrightarrow> hd (Trim s cs) \<notin> set cs \<and> last (Trim s cs) \<notin> set cs)"
proof -
  let ?P = "\<lambda>c. c \<in> set cs"
  let ?d = "dropWhile ?P s"
  let ?e = "dropWhile ?P (rev ?d)"
  have t: "Trim s cs = rev ?e" by (simp add: Trim_def)
  have "rev ?e @ rev (takeWhile ?P (rev ?d)) = rev (takeWhile ?P (rev ?d) @ ?e)"
    by (simp only: rev_append)
  also have "\<dots> = rev (rev ?d)"
    by (simp only: takeWhile_dropWhile_id)
  finally have d: "?d = rev ?e @ rev (takeWhile ?P (rev ?d))" by simp
  have s: "s = takeWhile ?P s @ ?d" by simp
  have lead: "set (takeWhile ?P s) \<subseteq> set cs"
    by (auto dest: set_takeWhileD)
  have trail: "set (rev (takeWhile ?P (rev ?d))) \<subseteq> set cs"
    by (auto dest: set_takeWhileD)
  have edges: "hd (rev ?e) \<notin> set cs \<and> last (rev ?e) \<notin> set cs" if ne: "rev ?e \<noteq> []"
  proof -
    from ne have e: "?e \<noteq> []" by simp
    then have "\<not> ?P (hd ?e)" by (rule hd_dropWhile)
    then have l: "last (rev ?e) \<notin> set cs" using e by (simp add: last_rev)
    have dne: "?d \<noteq> []"
    proof
      assume a: "?d = []"
      have "?e = []" unfolding a by simp
      with e show False by (simp only:)
    qed
    then have "\<not> ?P (hd ?d)" by (rule hd_dropWhile)
    moreover have "hd ?d = hd (rev ?e)" using d ne by (metis hd_append2)
    ultimately show ?thesis using l by simp
  qed
  have "s = takeWhile ?P s @ Trim s cs @ rev (takeWhile ?P (rev ?d))"
    using s d t by metis
  then show ?thesis using lead trail edges t by metis
qed

text \<open>
  Claim C2, as amended. When a line parses and its value, trimmed of spaces, has exactly
  two double-quote characters or exactly two single-quote characters, the trimmed value is
  \<open>lead @ core @ trail\<close> where \<open>lead\<close> and \<open>trail\<close> are all the quote characters of either
  type at its two ends (\<open>core\<close> neither begins nor ends with one), and the stored value is
  \<open>core\<close> with every \<^verbatim>\<open>\"\<close> replaced by \<^verbatim>\<open>"\<close> and then every \<^verbatim>\<open>\n\<close> by a newline.
\<close>

theorem quoted_value_loses_all_edge_quotes:
  assumes "line \<noteq> []"
    and "splitKeyValue (ditchComments line) = Inr [key0, value0]"
    and "Count (Trim value0 '' '') dq = 2 \<or> Count (Trim value0 '' '') sq = 2"
  shows "\<exists>lead core trail.
      Trim value0 '' '' = lead @ core @ trail
      \<and> set lead \<subseteq> {dq, sq} \<and> set trail \<subseteq> {dq, sq}
      \<and> (core \<noteq> [] \<longrightarrow> hd core \<notin> {dq, sq} \<and> last core \<notin> {dq, sq})
      \<and> parseLine line
          = Inr (parseKey key0, Replace (Replace core [bs, dq] [dq]) [bs, CHR ''n''] [nl])"
proof -
  let ?t = "Trim value0 '' ''"
  let ?core = "Trim ?t [dq, sq]"
  obtain lead trail where dec: "?t = lead @ ?core @ trail"
      "set lead \<subseteq> set [dq, sq]" "set trail \<subseteq> set [dq, sq]"
      "?core \<noteq> [] \<longrightarrow> hd ?core \<notin> set [dq, sq] \<and> last ?core \<notin> set [dq, sq]"
    using Trim_decomposition [of ?t "[dq, sq]"] by blast
  have "parseValue value0 = Replace (Replace ?core [bs, dq] [dq]) [bs, CHR ''n''] [nl]"
    using assms(3) by (simp add: parseValue_def Let_def)
  then have "parseLine line
      = Inr (parseKey key0, Replace (Replace ?core [bs, dq] [dq]) [bs, CHR ''n''] [nl])"
    using assms(1,2) by (simp add: parseLine_def)
  then show ?thesis using dec by (intro exI [of _ lead] exI [of _ ?core] exI [of _ trail]) simp
qed

theorem quoted_value_loses_all_edge_quotes_witness:
  "\<exists>lead core trail.
      Trim ([dq] @ ''a'' @ [sq, dq]) '' '' = lead @ core @ trail
      \<and> set lead \<subseteq> {dq, sq} \<and> set trail \<subseteq> {dq, sq}
      \<and> parseLine (''K='' @ [dq] @ ''a'' @ [sq, dq])
          = Inr (parseKey ''K'', Replace (Replace core [bs, dq] [dq]) [bs, CHR ''n''] [nl])"
proof -
  have 1: "''K='' @ [dq] @ ''a'' @ [sq, dq] \<noteq> []" by simp
  have 2: "splitKeyValue (ditchComments (''K='' @ [dq] @ ''a'' @ [sq, dq]))
      = Inr [''K'', [dq] @ ''a'' @ [sq, dq]]"
    by code_simp
  have 3: "Count (Trim ([dq] @ ''a'' @ [sq, dq]) '' '') dq = 2
      \<or> Count (Trim ([dq] @ ''a'' @ [sq, dq]) '' '') sq = 2"
    by code_simp
  show ?thesis
    using quoted_value_loses_all_edge_quotes [OF 1 2 3] by blast
qed

text \<open>
  The claim as it stands fails on \<^verbatim>\<open>K="a'"\<close>: the value has exactly two double quotes, and
  stripping one double quote at each end would leave \<^verbatim>\<open>a'\<close> (that is what \<open>spec_parseValue\<close>
  computes), but \<^verbatim>\<open>strings.Trim(value, "\"'")\<close> also takes the single quote and \<^verbatim>\<open>a\<close> is
  stored.
\<close>

theorem edge_quote_of_other_type_also_stripped:
  "Count (Trim ([dq] @ ''a'' @ [sq, dq]) '' '') dq = 2
   \<and> parseLine (''K='' @ [dq] @ ''a'' @ [sq, dq]) = Inr (''K'', ''a'')
   \<and> spec_parseValue ([dq] @ ''a'' @ [sq, dq]) = ''a'' @ [sq]
   \<and> parseValue ([dq] @ ''a'' @ [sq, dq]) \<noteq> spec_parseValue ([dq] @ ''a'' @ [sq, dq])"
  by code_simp

section \<open>The \<^verbatim>\<open>export\<close> prefix\<close>

lemma Count_prefix: "q \<notin> set p \<Longrightarrow> Count (p @ s) q = Count s q"
  by (induction p) (auto simp: Count_def)

lemma Split_hd: "hd (Split s c) = takeWhile (\<lambda>x. x \<noteq> c) s"
proof (induction s)
  case Nil
  then show ?case by simp
next
  case (Cons x xs)
  then show ?case using Split_not_Nil [of xs c] by (cases "Split xs c") auto
qed

lemma Split_prefix:
  "c \<notin> set p \<Longrightarrow> Split (p @ l) c = (p @ hd (Split l c)) # tl (Split l c)"
proof (induction p)
  case Nil
  then show ?case using Split_not_Nil [of l c] by simp
next
  case (Cons x p)
  then show ?case by auto
qed

lemma segmentStep_first:
  "segmentStep (False, []) seg = (Count seg dq = 1 \<or> Count seg sq = 1, [seg])"
  by simp

lemma segmentStep_head:
  "\<exists>q' ks. \<forall>a. segmentStep (q, a # keep) seg = (q', a # ks)"
  by (cases q) (auto simp: Let_def)

lemma segment_loop_head:
  "\<exists>q' ks. \<forall>a. foldl segmentStep (q, a # keep) segs = (q', a # ks)"
proof (induction segs arbitrary: q keep)
  case Nil
  then show ?case by simp
next
  case (Cons seg segs)
  obtain q1 k1 where 1: "\<forall>a. segmentStep (q, a # keep) seg = (q1, a # k1)"
    using segmentStep_head by blast
  obtain q2 k2 where 2: "\<forall>a. foldl segmentStep (q1, a # k1) segs = (q2, a # k2)"
    using Cons.IH by blast
  show ?case using 1 2 by simp
qed

lemma Join_head: "Join ((p @ s) # ks) c = p @ Join (s # ks) c"
  by (cases ks) simp_all

lemma Join_Cons: "\<exists>r. Join (s # ks) c = s @ r \<and> (r = [] \<or> hd r = c)"
  by (cases ks) simp_all

lemma kept_segments:
  "\<exists>ks. \<forall>p. Count p dq = 0 \<and> Count p sq = 0 \<longrightarrow>
     snd (foldl segmentStep (False, []) ((p @ seg) # segs)) = (p @ seg) # ks"
proof -
  let ?q = "Count seg dq = 1 \<or> Count seg sq = 1"
  obtain q' ks where ks: "\<forall>a. foldl segmentStep (?q, a # []) segs = (q', a # ks)"
    using segment_loop_head by blast
  have "snd (foldl segmentStep (False, []) ((p @ seg) # segs)) = (p @ seg) # ks"
    if "Count p dq = 0 \<and> Count p sq = 0" for p
  proof -
    have "Count (p @ seg) dq = Count seg dq" "Count (p @ seg) sq = Count seg sq"
      using that by (simp_all add: Count_def)
    then have "segmentStep (False, []) (p @ seg) = (?q, [p @ seg])"
      by (simp only: segmentStep_first)
    then show ?thesis using ks by simp
  qed
  then show ?thesis by blast
qed

lemma ditchComments_prefix:
  assumes "CHR ''#'' \<notin> set p" and "dq \<notin> set p" and "sq \<notin> set p"
  shows "ditchComments (p @ l) = p @ ditchComments l"
proof (cases "CHR ''#'' \<in> set l")
  case False
  then show ?thesis using assms(1) by (simp add: ditchComments_def Contains_def)
next
  case True
  obtain seg segs where sp: "Split l (CHR ''#'') = seg # segs"
    using Split_not_Nil [of l "CHR ''#''"] by (cases "Split l (CHR ''#'')") auto
  then have sp': "Split (p @ l) (CHR ''#'') = (p @ seg) # segs"
    using Split_prefix [OF assms(1), of l] by simp
  obtain ks where ks: "\<forall>p. Count p dq = 0 \<and> Count p sq = 0 \<longrightarrow>
     snd (foldl segmentStep (False, []) ((p @ seg) # segs)) = (p @ seg) # ks"
    using kept_segments by blast
  have c: "Count p dq = 0 \<and> Count p sq = 0"
    using assms(2,3) by (auto simp: Count_def filter_empty_conv)
  have c0: "Count [] dq = 0 \<and> Count [] sq = 0"
    by (simp add: Count_def)
  have 1: "snd (foldl segmentStep (False, []) ((p @ seg) # segs)) = (p @ seg) # ks"
    using ks c by blast
  have 2: "snd (foldl segmentStep (False, []) (seg # segs)) = seg # ks"
    using ks [rule_format, of "[]"] c0 by simp
  show ?thesis
    using True sp sp' 1 2 by (simp add: ditchComments_def Contains_def Join_head)
qed

lemma ditchComments_first_segment:
  "\<exists>r. ditchComments l = takeWhile (\<lambda>x. x \<noteq> CHR ''#'') l @ r \<and> (r = [] \<or> hd r = CHR ''#'')"
proof (cases "CHR ''#'' \<in> set l")
  case False
  then have "takeWhile (\<lambda>x. x \<noteq> CHR ''#'') l = l"
    by (intro takeWhile_eq_all_conv [THEN iffD2]) auto
  moreover have "ditchComments l = l"
    using False by (simp add: ditchComments_def Contains_def)
  ultimately have "ditchComments l = takeWhile (\<lambda>x. x \<noteq> CHR ''#'') l @ []
      \<and> ([] = [] \<or> hd [] = CHR ''#'')"
    by (simp only: append_Nil2 simp_thms)
  then show ?thesis by (rule exI)
next
  case True
  obtain seg segs where sp: "Split l (CHR ''#'') = seg # segs"
    using Split_not_Nil [of l "CHR ''#''"] by (cases "Split l (CHR ''#'')") auto
  have seg: "seg = takeWhile (\<lambda>x. x \<noteq> CHR ''#'') l"
    using Split_hd [of l "CHR ''#''"] sp by simp
  obtain ks where ks: "\<forall>p. Count p dq = 0 \<and> Count p sq = 0 \<longrightarrow>
     snd (foldl segmentStep (False, []) ((p @ seg) # segs)) = (p @ seg) # ks"
    using kept_segments by blast
  have c0: "Count [] dq = 0 \<and> Count [] sq = 0"
    by (simp add: Count_def)
  have 2: "snd (foldl segmentStep (False, []) (seg # segs)) = seg # ks"
    using ks [rule_format, of "[]"] c0 by simp
  have "ditchComments l = Join (seg # ks) (CHR ''#'')"
    using True sp 2 by (simp add: ditchComments_def Contains_def)
  then show ?thesis using Join_Cons [of seg ks "CHR ''#''"] seg by auto
qed

lemma SplitN_2:
  "SplitN s c 2 = (if c \<in> set s
     then [takeWhile (\<lambda>x. x \<noteq> c) s, tl (dropWhile (\<lambda>x. x \<noteq> c) s)] else [s])"
  by (simp add: numeral_2_eq_2)

lemma takeWhile_prefix: "prefix (takeWhile P s) s"
proof -
  have "s = takeWhile P s @ dropWhile P s" by simp
  then show ?thesis by (rule prefixI)
qed

lemma splitKeyValue_at:
  assumes "c = CHR ''='' \<or> (c = CHR '':'' \<and> CHR ''='' \<notin> set s)" and "c \<in> set s"
  shows "splitKeyValue s
      = Inr [takeWhile (\<lambda>x. x \<noteq> c) s, tl (dropWhile (\<lambda>x. x \<noteq> c) s)]"
  using assms by (auto simp: splitKeyValue_def SplitN_2)

lemma splitKeyValue_none:
  assumes "CHR ''='' \<notin> set s" and "CHR '':'' \<notin> set s"
  shows "\<exists>e. splitKeyValue s = Inl e"
  using assms by (simp add: splitKeyValue_def SplitN_2)

lemma splitKeyValue_cases:
  "(\<exists>e. splitKeyValue s = Inl e \<and> (\<forall>p. CHR ''='' \<notin> set p \<and> CHR '':'' \<notin> set p \<longrightarrow>
        splitKeyValue (p @ s) = Inl e))
   \<or> (\<exists>k0 v0. splitKeyValue s = Inr [k0, v0] \<and> prefix k0 s
        \<and> (\<forall>p. CHR ''='' \<notin> set p \<and> CHR '':'' \<notin> set p \<longrightarrow>
              splitKeyValue (p @ s) = Inr [p @ k0, v0]))"
proof (cases "CHR ''='' \<in> set s \<or> CHR '':'' \<in> set s")
  case False
  have "splitKeyValue (p @ s) = splitKeyValue s"
    if "CHR ''='' \<notin> set p \<and> CHR '':'' \<notin> set p" for p
    using that False splitKeyValue_no_separator [of "p @ s"] splitKeyValue_no_separator [of s]
    by simp
  moreover obtain e where "splitKeyValue s = Inl e"
    using False splitKeyValue_none [of s] by blast
  ultimately show ?thesis by simp
next
  case True
  define c where "c = (if CHR ''='' \<in> set s then CHR ''='' else CHR '':'')"
  have c: "c = CHR ''='' \<or> (c = CHR '':'' \<and> CHR ''='' \<notin> set s)" "c \<in> set s"
    using True by (auto simp: c_def)
  let ?k = "takeWhile (\<lambda>x. x \<noteq> c) s"
  let ?v = "tl (dropWhile (\<lambda>x. x \<noteq> c) s)"
  have 1: "splitKeyValue s = Inr [?k, ?v]"
    using c by (rule splitKeyValue_at)
  have 2: "splitKeyValue (p @ s) = Inr [p @ ?k, ?v]"
    if p: "CHR ''='' \<notin> set p \<and> CHR '':'' \<notin> set p" for p
  proof -
    have cp: "c \<notin> set p" using c(1) p by auto
    have "c = CHR ''='' \<or> (c = CHR '':'' \<and> CHR ''='' \<notin> set (p @ s))" "c \<in> set (p @ s)"
      using c p by auto
    then have "splitKeyValue (p @ s)
        = Inr [takeWhile (\<lambda>x. x \<noteq> c) (p @ s), tl (dropWhile (\<lambda>x. x \<noteq> c) (p @ s))]"
      by (rule splitKeyValue_at)
    moreover have "takeWhile (\<lambda>x. x \<noteq> c) (p @ s) = p @ ?k"
      using cp by (intro takeWhile_append2) auto
    moreover have "dropWhile (\<lambda>x. x \<noteq> c) (p @ s) = dropWhile (\<lambda>x. x \<noteq> c) s"
      using cp by (intro dropWhile_append2) auto
    ultimately show ?thesis by simp
  qed
  have "prefix ?k s" by (rule takeWhile_prefix)
  then show ?thesis using 1 2 by blast
qed

lemma prefix_before_foreign_char:
  assumes "prefix e (a @ b)" and "b = [] \<or> hd b \<notin> set e"
  shows "prefix e a"
proof -
  from assms(1) consider "prefix e a" | us where "e = a @ us" "prefix us b"
    by (auto simp: prefix_append)
  then show ?thesis
  proof cases
    case 1
    then show ?thesis .
  next
    case 2
    show ?thesis
    proof (cases us)
      case Nil
      then show ?thesis using 2(1) by simp
    next
      case (Cons u us')
      with 2(2) obtain b' where "b = u # b'" by (cases b) auto
      moreover have "u \<in> set e" using 2(1) Cons by simp
      ultimately show ?thesis using assms(2) by simp
    qed
  qed
qed

lemma raw_key_not_export:
  assumes "\<not> HasPrefix k ''export''"
    and "splitKeyValue (ditchComments (k @ ''='' @ v)) = Inr [k0, v0]"
    and "prefix k0 (ditchComments (k @ ''='' @ v))"
  shows "\<not> HasPrefix k0 ''export''"
proof
  assume "HasPrefix k0 ''export''"
  then have "prefix ''export'' (ditchComments (k @ ''='' @ v))"
    using assms(3) by (auto simp: HasPrefix_def)
  moreover obtain r where r: "ditchComments (k @ ''='' @ v)
      = takeWhile (\<lambda>x. x \<noteq> CHR ''#'') (k @ ''='' @ v) @ r" "r = [] \<or> hd r = CHR ''#''"
    using ditchComments_first_segment by blast
  ultimately have "prefix ''export'' (takeWhile (\<lambda>x. x \<noteq> CHR ''#'') (k @ ''='' @ v) @ r)"
    by simp
  then have "prefix ''export'' (takeWhile (\<lambda>x. x \<noteq> CHR ''#'') (k @ ''='' @ v))"
  proof (rule prefix_before_foreign_char)
    show "r = [] \<or> hd r \<notin> set ''export''" using r(2) by auto
  qed
  moreover have "prefix (takeWhile (\<lambda>x. x \<noteq> CHR ''#'') (k @ ''='' @ v)) (k @ ''='' @ v)"
    by (rule takeWhile_prefix)
  ultimately have "prefix ''export'' (k @ ''='' @ v)"
    by (rule prefix_order.trans)
  then have "prefix ''export'' k"
    by (rule prefix_before_foreign_char) simp
  then show False using assms(1) by (simp add: HasPrefix_def)
qed

lemma parseKey_export:
  "parseKey (''export '' @ k0) = Trim k0 '' ''"
proof -
  have "HasPrefix (''export '' @ k0) ''export''"
    by (simp add: HasPrefix_def)
  then have "parseKey (''export '' @ k0) = Trim ('' '' @ k0) '' ''"
    by (simp add: parseKey_def TrimPrefix_def)
  also have "\<dots> = Trim k0 '' ''"
    by (rule Trim_blank_prefix) simp
  finally show ?thesis .
qed

lemma parseKey_plain: "\<not> HasPrefix k0 ''export'' \<Longrightarrow> parseKey k0 = Trim k0 '' ''"
  by (simp add: parseKey_def)

lemma parseLine_export:
  assumes "\<not> HasPrefix k ''export''"
  shows "parseLine (''export '' @ k @ ''='' @ v) = parseLine (k @ ''='' @ v)"
proof -
  let ?l = "k @ ''='' @ v"
  have d: "ditchComments (''export '' @ ?l) = ''export '' @ ditchComments ?l"
    by (rule ditchComments_prefix) simp_all
  have p: "CHR ''='' \<notin> set ''export '' \<and> CHR '':'' \<notin> set ''export ''"
    by simp
  from splitKeyValue_cases [of "ditchComments ?l"] show ?thesis
  proof (elim disjE exE conjE)
    fix e
    assume s: "splitKeyValue (ditchComments ?l) = Inl e"
      and ext: "\<forall>p. CHR ''='' \<notin> set p \<and> CHR '':'' \<notin> set p \<longrightarrow>
        splitKeyValue (p @ ditchComments ?l) = Inl e"
    have s': "splitKeyValue (''export '' @ ditchComments ?l) = Inl e"
      using ext [rule_format, OF p] .
    show ?thesis using s s' d by (simp add: parseLine_def)
  next
    fix k0 v0
    assume s: "splitKeyValue (ditchComments ?l) = Inr [k0, v0]"
      and pre: "prefix k0 (ditchComments ?l)"
      and ext: "\<forall>p. CHR ''='' \<notin> set p \<and> CHR '':'' \<notin> set p \<longrightarrow>
        splitKeyValue (p @ ditchComments ?l) = Inr [p @ k0, v0]"
    have s': "splitKeyValue (''export '' @ ditchComments ?l) = Inr [''export '' @ k0, v0]"
      using ext [rule_format, OF p] .
    have "\<not> HasPrefix k0 ''export''"
      using assms s pre by (rule raw_key_not_export)
    then have "parseKey k0 = Trim k0 '' ''"
      by (rule parseKey_plain)
    moreover have "parseKey (''export '' @ k0) = Trim k0 '' ''"
      by (rule parseKey_export)
    ultimately have "parseKey (''export '' @ k0) = parseKey k0"
      by (simp only:)
    then show ?thesis using s s' d by (simp add: parseLine_def)
  qed
qed

lemma export_line_not_ignored: "\<not> isIgnoredLine (''export '' @ l)"
proof -
  have "Trim (CHR ''e'' # (''xport '' @ l)) [CHR '' '', nl, tab]
      = CHR ''e'' # rev (dropWhile (\<lambda>c. c \<in> set [CHR '' '', nl, tab]) (rev (''xport '' @ l)))"
    by (rule Trim_keeps_head) simp
  then obtain t where "Trim (''export '' @ l) [CHR '' '', nl, tab] = CHR ''e'' # t"
    by simp
  then show ?thesis
    unfolding isIgnoredLine_def Let_def HasPrefix_def by simp
qed

lemma parseKey_export_glued: "parseKey (''export'' @ r) = Trim r '' ''"
proof -
  have "HasPrefix (''export'' @ r) ''export''"
    by (simp add: HasPrefix_def)
  then show ?thesis
    by (simp add: parseKey_def TrimPrefix_def)
qed

text \<open>
  Claim C6, as amended. For every key that does not itself begin with \<^verbatim>\<open>export\<close> and every
  value, \<open>parseLine\<close> returns the same for \<^verbatim>\<open>export KEY=value\<close> and for \<^verbatim>\<open>KEY=value\<close>, and
  unless \<^verbatim>\<open>KEY=value\<close> is an ignored line (its key begins with \<^verbatim>\<open>#\<close> after blanks) the
  two lines change every store in the same way. The prefix is stripped with no look at what
  follows it: a raw key \<^verbatim>\<open>export\<close> followed by any \<open>r\<close> becomes \<open>r\<close> trimmed of spaces.
\<close>

theorem export_prefix_gives_same_entry:
  assumes "\<not> HasPrefix k ''export''"
  shows "parseLine (''export '' @ k @ ''='' @ v) = parseLine (k @ ''='' @ v)
    \<and> (\<not> isIgnoredLine (k @ ''='' @ v) \<longrightarrow>
         storeLine m (''export '' @ k @ ''='' @ v) = storeLine m (k @ ''='' @ v))
    \<and> parseKey (''export'' @ r) = Trim r '' ''"
proof -
  have eq: "parseLine (''export '' @ k @ ''='' @ v) = parseLine (k @ ''='' @ v)"
    using assms by (rule parseLine_export)
  have "\<not> isIgnoredLine (''export '' @ k @ ''='' @ v)"
    by (rule export_line_not_ignored)
  then have "storeLine m (''export '' @ k @ ''='' @ v) = storeLine m (k @ ''='' @ v)"
    if "\<not> isIgnoredLine (k @ ''='' @ v)"
    using that eq by (simp only: storeLine_def if_True)
  then show ?thesis
    using eq parseKey_export_glued [of r] by blast
qed

theorem export_prefix_gives_same_entry_witness:
  "parseLine (''export '' @ ''KEY'' @ ''='' @ ''value'') = parseLine (''KEY'' @ ''='' @ ''value'')
   \<and> storeLine Map.empty (''export '' @ ''KEY'' @ ''='' @ ''value'')
       = storeLine Map.empty (''KEY'' @ ''='' @ ''value'')
   \<and> parseKey (''export'' @ ''FOO'') = Trim ''FOO'' '' ''"
proof -
  have 1: "\<not> HasPrefix ''KEY'' ''export''" by code_simp
  have 2: "\<not> isIgnoredLine (''KEY'' @ ''='' @ ''value'')" by code_simp
  show ?thesis
    using export_prefix_gives_same_entry [OF 1, of "''value''" Map.empty "''FOO''"] 2
    by blast
qed

text \<open>
  The claim as it stands fails for the key \<^verbatim>\<open>exportFOO\<close>: \<^verbatim>\<open>export exportFOO=1\<close> stores
  the key \<^verbatim>\<open>exportFOO\<close>, and \<^verbatim>\<open>exportFOO=1\<close> stores the key \<^verbatim>\<open>FOO\<close>.
\<close>

theorem export_lines_differ_for_key_exportFOO:
  "parseLine ''export exportFOO=1'' = Inr (''exportFOO'', ''1'')
   \<and> parseLine ''exportFOO=1'' = Inr (''FOO'', ''1'')
   \<and> storeLines Map.empty [''export exportFOO=1''] ''exportFOO'' = Some (VString ''1'')
   \<and> storeLines Map.empty [''exportFOO=1''] ''exportFOO'' = None
   \<and> storeLines Map.empty [''exportFOO=1''] ''FOO'' = Some (VString ''1'')"
  by code_simp

section \<open>What the comment loop keeps\<close>

lemma Count_0: "c \<notin> set s \<Longrightarrow> Count s c = 0"
  by (auto simp: Count_def filter_empty_conv)















end
